theory Spec2Isabelle
  imports Complex_Main "HOL-Library.Multiset"
begin

section \<open>Monte Carlo stock price simulation (monte_carlo_simulation.cpp)\<close>

text \<open>
  Conventions of the embedding.
  \<^item> A C++ \<^verbatim>\<open>double\<close> is a \<^typ>\<open>real\<close>, in two readings. In the exact reading,
    in which the functions are written first, arithmetic is exact; the statements about
    structure, order, indices and the formula computed are proved on it. In the
    binary64 reading, given after it, every operation rounds to the nearest binary64
    number; the statements that rounding or underflow decide are settled on that
    reading.
  \<^item> A C++ \<^verbatim>\<open>int\<close> is an \<^typ>\<open>int\<close>; the parameters stay far from the 32-bit limits.
  \<^item> A \<^verbatim>\<open>std::vector\<close> is a list. An access outside the vector (undefined behaviour
    in C++) and a failed allocation (an exception) are error values.
  \<^item> The random engine \<^verbatim>\<open>std::mt19937\<close> is a state of an arbitrary type \<open>'g\<close>; the
    \<^verbatim>\<open>std::normal_distribution<double>\<close> object is a state of type \<open>'d\<close> together
    with the function that \<^verbatim>\<open>dist(gen)\<close> computes: from both states, one sample
    and both new states.
\<close>

subsection \<open>Data\<close>

record SimulationParams =
  S0 :: real
  mu :: real
  sigma :: real
  T :: real
  steps :: int
  num_paths :: int

datatype error =
    LengthError    \<comment> \<open>a vector constructed with a negative size\<close>
  | OutOfBounds    \<comment> \<open>an element access outside the vector\<close>

record ('d, 'g) normal_distribution =
  fresh :: 'd
  draw :: "'d \<Rightarrow> 'g \<Rightarrow> real \<times> 'd \<times> 'g"

subsection \<open>generatePath\<close>

text \<open>
  The loop \<^verbatim>\<open>for (int i = 1; i <= params.steps; ++i)\<close> of \<^verbatim>\<open>generatePath\<close>: the
  state is the counter, the vector and the two random states.
\<close>

function generatePath_loop ::
  "('d, 'g) normal_distribution \<Rightarrow> real \<Rightarrow> real \<Rightarrow> int \<Rightarrow> int \<Rightarrow> real list \<Rightarrow> 'd \<Rightarrow> 'g
     \<Rightarrow> real list \<times> 'd \<times> 'g" where
  "generatePath_loop nd drift vol n i path d gen =
     (if i \<le> n then
        (case draw nd d gen of (Z, d', gen') \<Rightarrow>
           generatePath_loop nd drift vol n (i + 1)
             (path[nat i := path ! nat (i - 1) * exp (drift + vol * Z)]) d' gen')
      else (path, d, gen))"
  by pat_completeness auto
termination
  by (relation "measure (\<lambda>(nd, drift, vol, n, i, path, d, gen). nat (n + 1 - i))") auto

declare generatePath_loop.simps [simp del]

text \<open>
  The first \<open>k\<close> samples that successive calls \<^verbatim>\<open>dist(gen)\<close> return from given
  states, with the states after the last call.
\<close>

fun samples ::
  "('d, 'g) normal_distribution \<Rightarrow> nat \<Rightarrow> 'd \<Rightarrow> 'g \<Rightarrow> real list \<times> 'd \<times> 'g" where
  "samples nd 0 d gen = ([], d, gen)"
| "samples nd (Suc k) d gen =
     (case draw nd d gen of (Z, d', gen') \<Rightarrow>
        (case samples nd k d' gen' of (Zs, d'', gen'') \<Rightarrow> (Z # Zs, d'', gen'')))"

definition generatePath ::
  "('d, 'g) normal_distribution \<Rightarrow> SimulationParams \<Rightarrow> 'g \<Rightarrow> error + (real list \<times> 'g)" where
  "generatePath nd params gen =
     (if steps params + 1 < 0 then Inl LengthError
      else if steps params + 1 = 0 then Inl OutOfBounds
      else
        let path = (replicate (nat (steps params + 1)) 0)[0 := S0 params];
            dt = T params / real_of_int (steps params);
            drift = (mu params - 0.5 * sigma params * sigma params) * dt;
            vol = sigma params * sqrt dt
        in case generatePath_loop nd drift vol (steps params) 1 path (fresh nd) gen of
             (path', d', gen') \<Rightarrow> Inr (path', gen'))"

subsection \<open>Counting loops\<close>

text \<open>
  \<^verbatim>\<open>for (int i = lo; i <= hi; ++i) body\<close> on a state \<open>s\<close>; a loop with the test
  \<^verbatim>\<open>i < n\<close> is the one with \<open>hi = n - 1\<close>.
\<close>

function for_upto :: "int \<Rightarrow> int \<Rightarrow> (int \<Rightarrow> 's \<Rightarrow> 's) \<Rightarrow> 's \<Rightarrow> 's" where
  "for_upto i hi body s = (if i \<le> hi then for_upto (i + 1) hi body (body i s) else s)"
  by pat_completeness auto
termination
  by (relation "measure (\<lambda>(i, hi, body, s). nat (hi + 1 - i))") auto

declare for_upto.simps [simp del]

subsection \<open>runMonteCarloSimulation\<close>

text \<open>
  The engine is seeded from \<^verbatim>\<open>std::random_device\<close>: its first state \<open>seed\<close> is an
  argument. The state of the loop is the vector of paths and the engine, or the error
  that stopped it.
\<close>

definition runMonteCarloSimulation ::
  "('d, 'g) normal_distribution \<Rightarrow> SimulationParams \<Rightarrow> 'g \<Rightarrow> error + real list list" where
  "runMonteCarloSimulation nd params seed =
     (if num_paths params < 0 then Inl LengthError
      else
        case for_upto 0 (num_paths params - 1)
               (\<lambda>i st. case st of
                    Inl e \<Rightarrow> Inl e
                  | Inr (paths, gen) \<Rightarrow>
                      (case generatePath nd params gen of
                         Inl e \<Rightarrow> Inl e
                       | Inr (path, gen') \<Rightarrow> Inr (paths[nat i := path], gen')))
               (Inr (replicate (nat (num_paths params)) [], seed))
        of Inl e \<Rightarrow> Inl e | Inr (paths, gen) \<Rightarrow> Inr paths)"

subsection \<open>calculateStatistics\<close>

text \<open>
  The six numbers that \<^verbatim>\<open>calculateStatistics\<close> prints, before formatting, under
  the labels it prints them with.
\<close>

record SummaryStatistics =
  Mean :: real
  Standard_Deviation :: real
  Minimum :: real
  Maximum :: real
  Percentile_5th :: real
  Percentile_95th :: real

text \<open>\<^verbatim>\<open>final_prices.push_back(path[steps])\<close> for every path, in order.\<close>

fun final_prices_of :: "int \<Rightarrow> real list list \<Rightarrow> real list \<Rightarrow> error + real list" where
  "final_prices_of n [] final_prices = Inr final_prices"
| "final_prices_of n (path # rest) final_prices =
     (if 0 \<le> n \<and> n < int (length path)
      then final_prices_of n rest (final_prices @ [path ! nat n])
      else Inl OutOfBounds)"

text \<open>
  \<^verbatim>\<open>std::min_element\<close> and \<^verbatim>\<open>std::max_element\<close> keep the first smallest and
  the first largest element; on an empty range they return the end iterator (\<open>None\<close>).
\<close>

fun min_element :: "real list \<Rightarrow> real option" where
  "min_element [] = None"
| "min_element (x # xs) = Some (fold (\<lambda>y smallest. if y < smallest then y else smallest) xs x)"

fun max_element :: "real list \<Rightarrow> real option" where
  "max_element [] = None"
| "max_element (x # xs) = Some (fold (\<lambda>y largest. if largest < y then y else largest) xs x)"

text \<open>\<^verbatim>\<open>static_cast<int>\<close> of a double: truncation towards zero.\<close>

definition static_cast_int :: "real \<Rightarrow> int" where
  "static_cast_int x = (if 0 \<le> x then \<lfloor>x\<rfloor> else \<lceil>x\<rceil>)"

text \<open>\<^verbatim>\<open>v[i]\<close> on a vector.\<close>

definition vector_at :: "'a list \<Rightarrow> int \<Rightarrow> error + 'a" where
  "vector_at v i = (if 0 \<le> i \<and> i < int (length v) then Inr (v ! nat i) else Inl OutOfBounds)"

definition calculateStatistics ::
  "real list list \<Rightarrow> SimulationParams \<Rightarrow> error + SummaryStatistics" where
  "calculateStatistics paths params =
     (let num_paths = int (length paths);
          steps = steps params
      in case final_prices_of steps paths [] of
           Inl e \<Rightarrow> Inl e
         | Inr final_prices \<Rightarrow>
             let sum = fold (\<lambda>price sum. sum + price) final_prices 0;
                 mean = sum / real_of_int num_paths;
                 sum_squared_diff =
                   fold (\<lambda>price sum_squared_diff.
                           sum_squared_diff + (price - mean) * (price - mean)) final_prices 0;
                 std_dev = sqrt (sum_squared_diff / real_of_int num_paths)
             in case (min_element final_prices, max_element final_prices) of
                  (Some min_price, Some max_price) \<Rightarrow>
                    let sorted_prices = sort final_prices
                    in (case vector_at sorted_prices (static_cast_int (0.05 * real_of_int num_paths)) of
                          Inl e \<Rightarrow> Inl e
                        | Inr percentile_5 \<Rightarrow>
                           (case vector_at sorted_prices
                                   (static_cast_int (0.95 * real_of_int num_paths)) of
                              Inl e \<Rightarrow> Inl e
                            | Inr percentile_95 \<Rightarrow>
                                Inr \<lparr>Mean = mean, Standard_Deviation = std_dev,
                                     Minimum = min_price, Maximum = max_price,
                                     Percentile_5th = percentile_5,
                                     Percentile_95th = percentile_95\<rparr>))
                | _ \<Rightarrow> Inl OutOfBounds)"

subsection \<open>saveResultsToCSV\<close>

text \<open>
  A file is the string written to it. The text that \<^verbatim>\<open>operator<<\<close> writes for a
  double and for an int on a fresh \<^verbatim>\<open>std::ofstream\<close> is given by the functions
  \<open>put_double\<close> and \<open>put_int\<close>; both files are written with the same ones.
  The result is the pair of \<^verbatim>\<open>stock_price_paths.csv\<close> and \<^verbatim>\<open>time_points.csv\<close>.
\<close>

definition endl :: string where
  "endl = [CHR 0x0A]"

definition saveResultsToCSV ::
  "(real \<Rightarrow> string) \<Rightarrow> (int \<Rightarrow> string) \<Rightarrow> real list list \<Rightarrow> SimulationParams
     \<Rightarrow> error + (string \<times> string)" where
  "saveResultsToCSV put_double put_int paths params =
     (let all_paths_file = ''Path,'';
          all_paths_file =
            for_upto 0 (steps params)
              (\<lambda>i out.
                 let t = real_of_int i * (T params / real_of_int (steps params));
                     out = out @ put_double t
                 in if i < steps params then out @ '','' else out)
              all_paths_file;
          all_paths_file = all_paths_file @ endl
      in case for_upto 0 (num_paths params - 1)
                (\<lambda>i st. case st of
                     Inl e \<Rightarrow> Inl e
                   | Inr out \<Rightarrow>
                       (case for_upto 0 (steps params)
                               (\<lambda>j st. case st of
                                    Inl e \<Rightarrow> Inl e
                                  | Inr out \<Rightarrow>
                                      (case vector_at paths i of
                                         Inl e \<Rightarrow> Inl e
                                       | Inr path \<Rightarrow>
                                          (case vector_at path j of
                                             Inl e \<Rightarrow> Inl e
                                           | Inr price \<Rightarrow>
                                               Inr (if j < steps params
                                                    then out @ put_double price @ '',''
                                                    else out @ put_double price))))
                               (Inr (out @ put_int (i + 1) @ '',''))
                        of Inl e \<Rightarrow> Inl e | Inr out \<Rightarrow> Inr (out @ endl)))
                (Inr all_paths_file)
         of Inl e \<Rightarrow> Inl e
          | Inr all_paths_file \<Rightarrow>
              let time_file =
                    for_upto 0 (steps params)
                      (\<lambda>i out.
                         let t = real_of_int i * (T params / real_of_int (steps params))
                         in out @ put_double t @ endl)
                      []
              in Inr (all_paths_file, time_file))"

subsection \<open>main\<close>

text \<open>
  \<^verbatim>\<open>main\<close> reads the six parameters and calls the four functions in turn; there is
  no other statement between the last read and the call of
  \<^verbatim>\<open>runMonteCarloSimulation\<close>. The model takes the parameters as read and returns the
  calls made, in order, with the statistics and the two files, or the error that ended
  the run. \<^verbatim>\<open>generatePlotHTML\<close> only writes a fixed page and is a call without a result.
\<close>

datatype call =
    Call_runMonteCarloSimulation SimulationParams
  | Call_calculateStatistics
  | Call_saveResultsToCSV
  | Call_generatePlotHTML

definition main_program ::
  "('d, 'g) normal_distribution \<Rightarrow> (real \<Rightarrow> string) \<Rightarrow> (int \<Rightarrow> string) \<Rightarrow> SimulationParams \<Rightarrow> 'g
     \<Rightarrow> call list \<times> (error + (SummaryStatistics \<times> string \<times> string))" where
  "main_program nd put_double put_int params seed =
     (case runMonteCarloSimulation nd params seed of
        Inl e \<Rightarrow> ([Call_runMonteCarloSimulation params], Inl e)
      | Inr paths \<Rightarrow>
          (case calculateStatistics paths params of
             Inl e \<Rightarrow> ([Call_runMonteCarloSimulation params, Call_calculateStatistics], Inl e)
           | Inr stats \<Rightarrow>
               (case saveResultsToCSV put_double put_int paths params of
                  Inl e \<Rightarrow>
                    ([Call_runMonteCarloSimulation params, Call_calculateStatistics,
                      Call_saveResultsToCSV], Inl e)
                | Inr files \<Rightarrow>
                    ([Call_runMonteCarloSimulation params, Call_calculateStatistics,
                      Call_saveResultsToCSV, Call_generatePlotHTML], Inr (stats, files)))))"

subsection \<open>Reading the exports back\<close>

text \<open>
  The pieces of a text between the occurrences of a separator, and the lines of a file
  in which every line ends with a newline.
\<close>

fun split_on :: "char \<Rightarrow> string \<Rightarrow> string list" where
  "split_on c [] = [[]]"
| "split_on c (x # xs) =
     (if x = c then [] # split_on c xs
      else (x # hd (split_on c xs)) # tl (split_on c xs))"

definition file_lines :: "string \<Rightarrow> string list" where
  "file_lines s = butlast (split_on (CHR 0x0A) s)"

subsection \<open>Invalid parameters\<close>

text \<open>The parameter sets that the specification calls invalid.\<close>

definition InvalidParameter :: "SimulationParams \<Rightarrow> bool" where
  "InvalidParameter params \<longleftrightarrow>
     S0 params \<le> 0 \<or> sigma params < 0 \<or> T params \<le> 0 \<or> steps params < 1 \<or> num_paths params < 1"

subsection \<open>Example inputs\<close>

text \<open>
  The scenario of the specification: \<open>S0 = 100\<close>, \<open>mu = 0.08\<close>, \<open>sigma = 0\<close>, \<open>T = 1\<close>,
  one step, one path; and a parameter set with volatility, two steps and three paths.
\<close>

definition scenario_params :: SimulationParams where
  "scenario_params = \<lparr>S0 = 100, mu = 0.08, sigma = 0, T = 1, steps = 1, num_paths = 1\<rparr>"

definition example_params :: SimulationParams where
  "example_params = \<lparr>S0 = 100, mu = 0.08, sigma = 0.2, T = 1, steps = 2, num_paths = 3\<rparr>"

text \<open>
  A reproducible random source in place of the system one: the engine state is a
  counter, and the \<open>k\<close>-th call returns \<open>k\<close> as its sample.
\<close>

definition counting_source :: "(unit, nat) normal_distribution" where
  "counting_source = \<lparr>fresh = (), draw = (\<lambda>d gen. (real gen, d, Suc gen))\<rparr>"

text \<open>
  An ensemble for \<open>example_params\<close>: three paths of three prices, with the terminal
  values \<open>110\<close>, \<open>90\<close> and \<open>100\<close>. And an ensemble of one hundred paths of one
  step, the \<open>k\<close>-th ending at the price \<open>k + 1\<close>, listed from the highest to the lowest.
\<close>

definition example_ensemble :: "real list list" where
  "example_ensemble = [[100, 105, 110], [100, 95, 90], [100, 100, 100]]"

definition hundred_params :: SimulationParams where
  "hundred_params = \<lparr>S0 = 100, mu = 0.08, sigma = 0.2, T = 1, steps = 1, num_paths = 100\<rparr>"

definition hundred_ensemble :: "real list list" where
  "hundred_ensemble = map (\<lambda>k. [100, real k + 1]) (rev [0..<100])"

text \<open>
  Stand-ins for the stream's formatting of the numbers that occur in the examples: the
  time points \<open>0\<close>, \<open>0.5\<close> and \<open>1\<close>, and the path numbers \<open>1\<close> to \<open>3\<close>.
\<close>

definition example_put_double :: "real \<Rightarrow> string" where
  "example_put_double x =
     (if x = 0 then ''0'' else if x = 1 / 2 then ''0.5'' else if x = 1 then ''1'' else ''100'')"

definition example_put_int :: "int \<Rightarrow> string" where
  "example_put_int i = (if i = 1 then ''1'' else if i = 2 then ''2'' else ''3'')"

text \<open>The scenario with a negative initial price typed in.\<close>

definition negative_price_params :: SimulationParams where
  "negative_price_params = \<lparr>S0 = - 100, mu = 0.08, sigma = 0, T = 1, steps = 1, num_paths = 1\<rparr>"

subsection \<open>The binary64 reading\<close>




text \<open>
  \<^verbatim>\<open>generatePath\<close> and \<^verbatim>\<open>calculateStatistics\<close> once more, with a rounding \<open>rnd\<close>
  after every floating-point operation of the source, in the order the expressions
  are evaluated (no fused multiply-add). \<^verbatim>\<open>std::sqrt\<close> is correctly rounded by the
  standard; \<^verbatim>\<open>std::exp\<close> is taken as correctly rounded too. The conversion of an
  \<^verbatim>\<open>int\<close> to \<^verbatim>\<open>double\<close> is exact, the literals \<open>0.5\<close>, \<open>0.0\<close> and \<open>1.0\<close> are
  binary64 numbers, the literals \<open>0.05\<close> and \<open>0.95\<close> are rounded. Comparisons,
  \<^verbatim>\<open>std::sort\<close>, \<^verbatim>\<open>std::min_element\<close> and \<^verbatim>\<open>std::max_element\<close> do not round.
  With the identity for \<open>rnd\<close> these are the functions above.
\<close>

function generatePath_loop_rounded ::
  "(real \<Rightarrow> real) \<Rightarrow> ('d, 'g) normal_distribution \<Rightarrow> real \<Rightarrow> real \<Rightarrow> int \<Rightarrow> int \<Rightarrow> real list
     \<Rightarrow> 'd \<Rightarrow> 'g \<Rightarrow> real list \<times> 'd \<times> 'g" where
  "generatePath_loop_rounded rnd nd drift vol n i path d gen =
     (if i \<le> n then
        (case draw nd d gen of (Z, d', gen') \<Rightarrow>
           generatePath_loop_rounded rnd nd drift vol n (i + 1)
             (path[nat i :=
                rnd (path ! nat (i - 1) * rnd (exp (rnd (drift + rnd (vol * Z)))))]) d' gen')
      else (path, d, gen))"
  by pat_completeness auto
termination
  by (relation "measure (\<lambda>(rnd, nd, drift, vol, n, i, path, d, gen). nat (n + 1 - i))") auto

declare generatePath_loop_rounded.simps [simp del]

definition generatePath_rounded ::
  "(real \<Rightarrow> real) \<Rightarrow> ('d, 'g) normal_distribution \<Rightarrow> SimulationParams \<Rightarrow> 'g
     \<Rightarrow> error + (real list \<times> 'g)" where
  "generatePath_rounded rnd nd params gen =
     (if steps params + 1 < 0 then Inl LengthError
      else if steps params + 1 = 0 then Inl OutOfBounds
      else
        let path = (replicate (nat (steps params + 1)) 0)[0 := S0 params];
            dt = rnd (T params / real_of_int (steps params));
            drift = rnd (rnd (mu params - rnd (rnd (0.5 * sigma params) * sigma params)) * dt);
            vol = rnd (sigma params * rnd (sqrt dt))
        in case generatePath_loop_rounded rnd nd drift vol (steps params) 1 path (fresh nd) gen of
             (path', d', gen') \<Rightarrow> Inr (path', gen'))"


definition calculateStatistics_rounded ::
  "(real \<Rightarrow> real) \<Rightarrow> real list list \<Rightarrow> SimulationParams \<Rightarrow> error + SummaryStatistics" where
  "calculateStatistics_rounded rnd paths params =
     (let num_paths = int (length paths);
          steps = steps params
      in case final_prices_of steps paths [] of
           Inl e \<Rightarrow> Inl e
         | Inr final_prices \<Rightarrow>
             let sum = fold (\<lambda>price sum. rnd (sum + price)) final_prices 0;
                 mean = rnd (sum / real_of_int num_paths);
                 sum_squared_diff =
                   fold (\<lambda>price sum_squared_diff.
                           rnd (sum_squared_diff + rnd (rnd (price - mean) * rnd (price - mean))))
                     final_prices 0;
                 std_dev = rnd (sqrt (rnd (sum_squared_diff / real_of_int num_paths)))
             in case (min_element final_prices, max_element final_prices) of
                  (Some min_price, Some max_price) \<Rightarrow>
                    let sorted_prices = sort final_prices
                    in (case vector_at sorted_prices
                               (static_cast_int (rnd (rnd 0.05 * real_of_int num_paths))) of
                          Inl e \<Rightarrow> Inl e
                        | Inr percentile_5 \<Rightarrow>
                           (case vector_at sorted_prices
                                   (static_cast_int (rnd (rnd 0.95 * real_of_int num_paths))) of
                              Inl e \<Rightarrow> Inl e
                            | Inr percentile_95 \<Rightarrow>
                                Inr \<lparr>Mean = mean, Standard_Deviation = std_dev,
                                     Minimum = min_price, Maximum = max_price,
                                     Percentile_5th = percentile_5,
                                     Percentile_95th = percentile_95\<rparr>))
                | _ \<Rightarrow> Inl OutOfBounds)"












subsection \<open>Properties of generatePath\<close>

text \<open>The invariant of the loop, started at any counter.\<close>

lemma generatePath_loop_inv:
  "1 \<le> i \<Longrightarrow> i \<le> n + 1 \<Longrightarrow> length path = nat (n + 1) \<Longrightarrow>
   (case generatePath_loop nd drift vol n i path d gen of (path', d', gen') \<Rightarrow>
     (case samples nd (nat (n + 1 - i)) d gen of (Zs, d'', gen'') \<Rightarrow>
        d' = d'' \<and> gen' = gen'' \<and> length Zs = nat (n + 1 - i) \<and> length path' = length path \<and>
        (\<forall>j. 0 \<le> j \<and> j < i \<longrightarrow> path' ! nat j = path ! nat j) \<and>
        (\<forall>j. i \<le> j \<and> j \<le> n \<longrightarrow>
           path' ! nat j = path' ! nat (j - 1) * exp (drift + vol * Zs ! nat (j - i)))))"
proof (induction nd drift vol n i path d gen rule: generatePath_loop.induct)
  case (1 nd drift vol n i path d gen)
  show ?case
  proof (cases "i \<le> n")
    case False
    with "1.prems" have "i = n + 1" by simp
    then show ?thesis
      by (simp add: generatePath_loop.simps [of nd drift vol n "n + 1"])
  next
    case True
    obtain Z d1 g1 where dr: "draw nd d gen = (Z, d1, g1)"
      by (cases "draw nd d gen") auto
    let ?p1 = "path[nat i := path ! nat (i - 1) * exp (drift + vol * Z)]"
    obtain p' d' g' where lp: "generatePath_loop nd drift vol n (i + 1) ?p1 d1 g1 = (p', d', g')"
      by (cases "generatePath_loop nd drift vol n (i + 1) ?p1 d1 g1") auto
    obtain Zs d2 g2 where sm: "samples nd (nat (n - i)) d1 g1 = (Zs, d2, g2)"
      by (cases "samples nd (nat (n - i)) d1 g1") auto
    have k: "nat (n + 1 - i) = Suc (nat (n - i))" using True by simp
    have ih: "d' = d2 \<and> g' = g2 \<and> length Zs = nat (n - i) \<and> length p' = length ?p1 \<and>
        (\<forall>j. 0 \<le> j \<and> j < i + 1 \<longrightarrow> p' ! nat j = ?p1 ! nat j) \<and>
        (\<forall>j. i + 1 \<le> j \<and> j \<le> n \<longrightarrow>
           p' ! nat j = p' ! nat (j - 1) * exp (drift + vol * Zs ! nat (j - (i + 1))))"
      using "1.IH" [OF True dr [symmetric] refl] "1.prems" True lp sm by simp
    have res: "generatePath_loop nd drift vol n i path d gen = (p', d', g')"
      using True dr lp by (subst generatePath_loop.simps) simp
    have sm': "samples nd (nat (n + 1 - i)) d gen = (Z # Zs, d2, g2)"
      using dr sm by (simp add: k)
    have ilen: "nat i < length path" using "1.prems" True by simp
    have low: "p' ! nat j = path ! nat j" if "0 \<le> j" "j < i" for j
    proof -
      have "nat j \<noteq> nat i" using that by simp
      with ih that show ?thesis by simp
    qed
    have at_i: "p' ! nat i = p' ! nat (i - 1) * exp (drift + vol * Z)"
    proof -
      have "p' ! nat i = ?p1 ! nat i" using ih "1.prems" by simp
      also have "\<dots> = path ! nat (i - 1) * exp (drift + vol * Z)" using ilen by simp
      also have "path ! nat (i - 1) = p' ! nat (i - 1)" using low [of "i - 1"] "1.prems" by simp
      finally show ?thesis .
    qed
    have high: "p' ! nat j = p' ! nat (j - 1) * exp (drift + vol * (Z # Zs) ! nat (j - i))"
      if "i \<le> j" "j \<le> n" for j
    proof (cases "j = i")
      case True
      with at_i show ?thesis by simp
    next
      case False
      with that have j: "i + 1 \<le> j" by simp
      then have "nat (j - i) = Suc (nat (j - (i + 1)))" by simp
      with ih j that show ?thesis by simp
    qed
    have len: "length (Z # Zs) = nat (n + 1 - i)" using ih k by simp
    have c1: "d' = d2" "g' = g2" "length p' = length path" using ih by simp_all
    show ?thesis
      unfolding res sm' prod.case using c1 len low high by blast
  qed
qed

lemma generatePath_loop_facts:
  assumes "1 \<le> i" and "i \<le> n + 1" and "length path = nat (n + 1)"
    and lp: "generatePath_loop nd drift vol n i path d gen = (path', d', gen')"
    and sm: "samples nd (nat (n + 1 - i)) d gen = (Zs, d'', gen'')"
  shows "d' = d''" and "gen' = gen''" and "length Zs = nat (n + 1 - i)"
    and "length path' = length path"
    and "\<And>j. 0 \<le> j \<Longrightarrow> j < i \<Longrightarrow> path' ! nat j = path ! nat j"
    and "\<And>j. i \<le> j \<Longrightarrow> j \<le> n \<Longrightarrow>
           path' ! nat j = path' ! nat (j - 1) * exp (drift + vol * Zs ! nat (j - i))"
proof -
  have c: "d' = d'' \<and> gen' = gen'' \<and> length Zs = nat (n + 1 - i) \<and> length path' = length path \<and>
        (\<forall>j. 0 \<le> j \<and> j < i \<longrightarrow> path' ! nat j = path ! nat j) \<and>
        (\<forall>j. i \<le> j \<and> j \<le> n \<longrightarrow>
           path' ! nat j = path' ! nat (j - 1) * exp (drift + vol * Zs ! nat (j - i)))"
    using generatePath_loop_inv [where nd = nd and drift = drift and vol = vol and d = d
        and gen = gen, OF assms(1,2,3)]
    unfolding lp sm prod.case .
  show "d' = d''" by (rule c [THEN conjunct1])
  show "gen' = gen''" by (rule c [THEN conjunct2, THEN conjunct1])
  show "length Zs = nat (n + 1 - i)" by (rule c [THEN conjunct2, THEN conjunct2, THEN conjunct1])
  show "length path' = length path"
    by (rule c [THEN conjunct2, THEN conjunct2, THEN conjunct2, THEN conjunct1])
  show "path' ! nat j = path ! nat j" if "0 \<le> j" "j < i" for j
    by (rule c [THEN conjunct2, THEN conjunct2, THEN conjunct2, THEN conjunct2, THEN conjunct1,
          THEN spec, THEN mp, OF conjI [OF that]])
  show "path' ! nat j = path' ! nat (j - 1) * exp (drift + vol * Zs ! nat (j - i))"
    if "i \<le> j" "j \<le> n" for j
    by (rule c [THEN conjunct2, THEN conjunct2, THEN conjunct2, THEN conjunct2, THEN conjunct2,
          THEN spec, THEN mp, OF conjI [OF that]])
qed

lemma generatePath_result:
  assumes "0 \<le> steps params"
  obtains path gen' Zs d' where
    "generatePath nd params gen = Inr (path, gen')"
    "samples nd (nat (steps params)) (fresh nd) gen = (Zs, d', gen')"
    "length Zs = nat (steps params)"
    "length path = nat (steps params + 1)"
    "path ! 0 = S0 params"
    "\<And>j. 1 \<le> j \<Longrightarrow> j \<le> steps params \<Longrightarrow>
       path ! nat j = path ! nat (j - 1) *
         exp ((mu params - 0.5 * sigma params * sigma params) * (T params / real_of_int (steps params))
              + sigma params * sqrt (T params / real_of_int (steps params)) * Zs ! nat (j - 1))"
proof -
  let ?n = "steps params"
  let ?dt = "T params / real_of_int ?n"
  let ?drift = "(mu params - 0.5 * sigma params * sigma params) * ?dt"
  let ?vol = "sigma params * sqrt ?dt"
  let ?p0 = "(replicate (nat (?n + 1)) 0)[0 := S0 params]"
  obtain path d' gen' where
    lp: "generatePath_loop nd ?drift ?vol ?n 1 ?p0 (fresh nd) gen = (path, d', gen')"
    by (cases "generatePath_loop nd ?drift ?vol ?n 1 ?p0 (fresh nd) gen") auto
  obtain Zs d2 g2 where sm0: "samples nd (nat ?n) (fresh nd) gen = (Zs, d2, g2)"
    by (cases "samples nd (nat ?n) (fresh nd) gen") auto
  have e: "?n + 1 - 1 = ?n" by simp
  have sm: "samples nd (nat (?n + 1 - 1)) (fresh nd) gen = (Zs, d2, g2)"
    unfolding e by (rule sm0)
  have len0: "length ?p0 = nat (?n + 1)" by simp
  have b1: "(1::int) \<le> 1" by simp
  have b2: "1 \<le> ?n + 1" using assms by simp
  note f = generatePath_loop_facts [OF b1 b2 len0 lp sm]
  have r: "generatePath nd params gen = Inr (path, gen')"
  proof -
    have "\<not> ?n + 1 < 0" "?n + 1 \<noteq> 0" using assms by simp_all
    then show ?thesis
      unfolding generatePath_def Let_def lp by (simp only: if_False prod.case)
  qed
  have h0: "path ! 0 = S0 params"
  proof -
    have "path ! nat 0 = ?p0 ! nat 0" by (rule f(5)) simp_all
    then show ?thesis using assms by simp
  qed
  show thesis
  proof (rule that [of path gen' Zs d'])
    show "generatePath nd params gen = Inr (path, gen')" by (rule r)
    show "samples nd (nat ?n) (fresh nd) gen = (Zs, d', gen')" using sm0 f(1,2) by simp
    show "length Zs = nat ?n" using f(3) by simp
    show "length path = nat (?n + 1)" using f(4) len0 by simp
    show "path ! 0 = S0 params" by (rule h0)
    show "path ! nat j = path ! nat (j - 1) * exp (?drift + ?vol * Zs ! nat (j - 1))"
      if "1 \<le> j" "j \<le> ?n" for j
      by (rule f(6) [OF that])
  qed
qed

text \<open>A list built by multiplying with exponentials from a positive start is positive.\<close>

lemma path_positive:
  fixes path :: "real list"
  assumes "0 < path ! 0"
    and "\<And>j. 1 \<le> j \<Longrightarrow> j \<le> n \<Longrightarrow> path ! nat j = path ! nat (j - 1) * exp (c j)"
  shows "k \<le> nat n \<Longrightarrow> 0 < path ! k"
proof (induction k)
  case 0
  then show ?case using assms(1) by simp
next
  case (Suc k)
  then have "0 < path ! k" by simp
  moreover have "path ! nat (int (Suc k)) = path ! nat (int (Suc k) - 1) * exp (c (int (Suc k)))"
    using Suc.prems by (intro assms(2)) auto
  moreover have "nat (int (Suc k)) = Suc k" "nat (int (Suc k) - 1) = k" by simp_all
  ultimately show ?case by (simp only: mult_pos_pos exp_gt_zero)
qed

subsection \<open>Properties of calculateStatistics\<close>

lemma static_cast_int_nonneg: "0 \<le> x \<Longrightarrow> static_cast_int x = \<lfloor>x\<rfloor>"
  by (simp add: static_cast_int_def)

lemma percentile_index_bounds:
  fixes n :: int
  assumes "1 \<le> n" and "0 \<le> p" and "p < 1"
  shows "0 \<le> static_cast_int (p * real_of_int n)" and "static_cast_int (p * real_of_int n) < n"
proof -
  have nn: "0 \<le> p * real_of_int n" using assms by simp
  have "p * real_of_int n < 1 * real_of_int n"
    using assms by (intro mult_strict_right_mono) simp_all
  then have lt: "p * real_of_int n < real_of_int n" by simp
  show "0 \<le> static_cast_int (p * real_of_int n)"
    using nn by (simp add: static_cast_int_nonneg)
  show "static_cast_int (p * real_of_int n) < n"
    using nn lt by (simp add: static_cast_int_nonneg floor_less_iff)
qed

lemma final_prices_of_map:
  assumes "0 \<le> n"
  shows "(\<And>path. path \<in> set paths \<Longrightarrow> n < int (length path)) \<Longrightarrow>
         final_prices_of n paths acc = Inr (acc @ map (\<lambda>path. path ! nat n) paths)"
proof (induction paths arbitrary: acc)
  case Nil
  then show ?case by simp
next
  case (Cons path rest)
  have "n < int (length path)" using Cons.prems by simp
  moreover have "final_prices_of n rest (acc @ [path ! nat n])
                   = Inr ((acc @ [path ! nat n]) @ map (\<lambda>path. path ! nat n) rest)"
    using Cons.prems by (intro Cons.IH) simp
  ultimately show ?case using assms by simp
qed

lemma fold_sum: "fold (\<lambda>price sum. sum + price) xs (a::real) = a + sum_list xs"
  by (induction xs arbitrary: a) simp_all

lemma fold_sum_squared_diff:
  "fold (\<lambda>price s. s + (price - m) * (price - m)) xs (a::real) = a + (\<Sum>x\<leftarrow>xs. (x - m)\<^sup>2)"
  by (induction xs arbitrary: a) (simp_all add: power2_eq_square)

lemma min_element_Min: "xs \<noteq> [] \<Longrightarrow> min_element xs = Some (Min (set xs))"
proof (cases xs)
  case Nil
  assume "xs \<noteq> []" with Nil show ?thesis by simp
next
  case (Cons x ys)
  have "(\<lambda>y smallest. if y < smallest then y else smallest) = (min :: real \<Rightarrow> real \<Rightarrow> real)"
    by (intro ext) (simp add: min_def)
  then show ?thesis unfolding Cons min_element.simps by (simp only: Min.set_eq_fold)
qed

lemma max_element_Max: "xs \<noteq> [] \<Longrightarrow> max_element xs = Some (Max (set xs))"
proof (cases xs)
  case Nil
  assume "xs \<noteq> []" with Nil show ?thesis by simp
next
  case (Cons x ys)
  have "(\<lambda>y largest. if largest < y then y else largest) = (max :: real \<Rightarrow> real \<Rightarrow> real)"
    by (intro ext) (simp add: max_def)
  then show ?thesis unfolding Cons max_element.simps by (simp only: Max.set_eq_fold)
qed

lemma calculateStatistics_result:
  assumes ne: "paths \<noteq> []" and st: "0 \<le> steps params"
    and len: "\<And>path. path \<in> set paths \<Longrightarrow> int (length path) = steps params + 1"
  shows "calculateStatistics paths params =
    Inr \<lparr>Mean = sum_list (map last paths) / real (length paths),
         Standard_Deviation =
           sqrt ((\<Sum>x\<leftarrow>map last paths. (x - sum_list (map last paths) / real (length paths))\<^sup>2)
                 / real (length paths)),
         Minimum = Min (set (map last paths)),
         Maximum = Max (set (map last paths)),
         Percentile_5th = sort (map last paths) ! nat \<lfloor>0.05 * real (length paths)\<rfloor>,
         Percentile_95th = sort (map last paths) ! nat \<lfloor>0.95 * real (length paths)\<rfloor>\<rparr>"
proof -
  let ?fp = "map last paths"
  let ?n = "int (length paths)"
  have lastnth: "path ! nat (steps params) = last path" if "path \<in> set paths" for path
  proof -
    have l: "int (length path) = steps params + 1" using that by (rule len)
    then have "path \<noteq> []" using st by auto
    moreover have "nat (steps params) = length path - 1" using l by simp
    ultimately show ?thesis by (simp add: last_conv_nth)
  qed
  have "map (\<lambda>path. path ! nat (steps params)) paths = ?fp"
    using lastnth by (intro map_cong) simp_all
  moreover have "final_prices_of (steps params) paths []
          = Inr ([] @ map (\<lambda>path. path ! nat (steps params)) paths)"
    using len by (intro final_prices_of_map [OF st]) simp
  ultimately have fp: "final_prices_of (steps params) paths [] = Inr ?fp" by simp
  have fpne: "?fp \<noteq> []" using ne by simp
  have n1: "1 \<le> ?n" using ne by (cases paths) simp_all
  have i5: "static_cast_int (0.05 * real_of_int ?n) = \<lfloor>0.05 * real (length paths)\<rfloor>"
    by (simp add: static_cast_int_nonneg)
  have i95: "static_cast_int (0.95 * real_of_int ?n) = \<lfloor>0.95 * real (length paths)\<rfloor>"
    by (simp add: static_cast_int_nonneg)
  have ls: "int (length (sort ?fp)) = ?n" by simp
  have a5: "vector_at (sort ?fp) (static_cast_int (0.05 * real_of_int ?n))
              = Inr (sort ?fp ! nat \<lfloor>0.05 * real (length paths)\<rfloor>)"
    using percentile_index_bounds [OF n1, of "0.05"] ls
    unfolding vector_at_def i5 [symmetric] by simp
  have a95: "vector_at (sort ?fp) (static_cast_int (0.95 * real_of_int ?n))
              = Inr (sort ?fp ! nat \<lfloor>0.95 * real (length paths)\<rfloor>)"
    using percentile_index_bounds [OF n1, of "0.95"] ls
    unfolding vector_at_def i95 [symmetric] by simp
  show ?thesis
    unfolding calculateStatistics_def Let_def fp sum.case
      min_element_Min [OF fpne] max_element_Max [OF fpne] prod.case option.case a5 a95
      fold_sum fold_sum_squared_diff
    by simp
qed

lemma percentile_index_order:
  fixes n :: nat
  shows "nat \<lfloor>0.05 * real n\<rfloor> \<le> nat \<lfloor>0.95 * real n\<rfloor>"
proof -
  have "0.05 * real n \<le> 0.95 * real n" by simp
  then have "\<lfloor>0.05 * real n\<rfloor> \<le> \<lfloor>0.95 * real n\<rfloor>" by (rule floor_mono)
  then show ?thesis by simp
qed

lemma percentile_index_less:
  fixes n :: nat
  assumes "0 < n" and "0 \<le> p" and "p < 1"
  shows "nat \<lfloor>p * real n\<rfloor> < n"
proof -
  have "1 \<le> int n" using assms by simp
  from percentile_index_bounds [OF this assms(2,3)]
  have "0 \<le> \<lfloor>p * real n\<rfloor>" "\<lfloor>p * real n\<rfloor> < int n"
    using assms by (simp_all add: static_cast_int_nonneg)
  then show ?thesis by linarith
qed

lemma hundred_ensemble_sorted:
  "sort (map last hundred_ensemble) = map (\<lambda>k. real k + 1) [0..<100]"
proof -
  have m: "map last hundred_ensemble = map (\<lambda>k. real k + 1) (rev [0..<100])"
    unfolding hundred_ensemble_def by simp
  have s: "sorted (map (\<lambda>k. real k + 1) [0..<100])"
    by (simp add: sorted_map sorted_wrt_iff_nth_less)
  have p: "mset (map (\<lambda>k. real k + 1) [0..<100]) = mset (map last hundred_ensemble)"
    unfolding m by (simp only: rev_map [symmetric] mset_rev)
  show ?thesis by (rule properties_for_sort [OF p s])
qed

text \<open>The statistics of the example ensemble, computed by the definition.\<close>

lemma calculateStatistics_example:
  "calculateStatistics example_ensemble example_params =
     Inr \<lparr>Mean = 100, Standard_Deviation = sqrt (200 / 3), Minimum = 90, Maximum = 110,
          Percentile_5th = 90, Percentile_95th = 110\<rparr>"
  by (simp add: calculateStatistics_def example_ensemble_def example_params_def Let_def
        vector_at_def static_cast_int_def)

lemma sum_list_constant:
  fixes c :: real
  shows "(\<And>x. x \<in> set xs \<Longrightarrow> x = c) \<Longrightarrow> sum_list xs = real (length xs) * c"
  by (induction xs) (simp_all add: algebra_simps)

lemma sum_squares_zero_iff:
  fixes xs :: "real list"
  shows "(\<Sum>x\<leftarrow>xs. (x - m)\<^sup>2) = 0 \<longleftrightarrow> (\<forall>x \<in> set xs. x = m)"
proof -
  have "(\<Sum>x\<leftarrow>xs. (x - m)\<^sup>2) = 0 \<longleftrightarrow> (\<forall>y \<in> set (map (\<lambda>x. (x - m)\<^sup>2) xs). y = 0)"
    by (intro sum_list_nonneg_eq_0_iff) auto
  then show ?thesis by auto
qed

lemma sum_squares_nonneg:
  fixes xs :: "real list"
  shows "0 \<le> (\<Sum>x\<leftarrow>xs. (x - m)\<^sup>2)"
  by (intro sum_list_nonneg) auto

subsection \<open>Properties of the loops and of saveResultsToCSV\<close>

lemma for_upto_fold: "for_upto i hi body s = fold body [i..hi] s"
proof (induction i hi body s rule: for_upto.induct)
  case (1 i hi body s)
  show ?case
  proof (cases "i \<le> hi")
    case True
    then have "[i..hi] = i # [i + 1..hi]" by (simp add: upto_rec1)
    with True "1.IH" show ?thesis by (subst for_upto.simps) simp
  next
    case False
    then show ?thesis by (subst for_upto.simps) simp
  qed
qed

lemma for_upto_invariant:
  assumes "P s" and "\<And>i s. lo \<le> i \<Longrightarrow> i \<le> hi \<Longrightarrow> P s \<Longrightarrow> P (body i s)"
  shows "P (for_upto lo hi body s)"
proof -
  have "(\<And>i. i \<in> set xs \<Longrightarrow> lo \<le> i \<and> i \<le> hi) \<Longrightarrow> P s \<Longrightarrow> P (fold body xs s)" for xs s
  proof (induction xs arbitrary: s)
    case Nil
    then show ?case by simp
  next
    case (Cons x xs)
    have "P (body x s)" using Cons.prems by (intro assms(2)) simp_all
    then have "P (fold body xs (body x s))" using Cons.prems by (intro Cons.IH) simp_all
    then show ?case by simp
  qed
  from this [of "[lo..hi]" s] assms(1) show ?thesis
    unfolding for_upto_fold by simp
qed

lemma fold_append_out:
  "fold (\<lambda>i out. out @ f i) xs acc = acc @ concat (map f xs)"
  by (induction xs arbitrary: acc) simp_all

lemma split_on_no_sep: "c \<notin> set w \<Longrightarrow> split_on c w = [w]"
  by (induction w) auto

lemma split_on_append_sep:
  "c \<notin> set w \<Longrightarrow> split_on c (w @ c # rest) = w # split_on c rest"
  by (induction w) auto

lemma split_on_terminated:
  assumes "\<And>x. x \<in> set xs \<Longrightarrow> c \<notin> set (g x)"
  shows "split_on c (concat (map (\<lambda>x. g x @ [c]) xs) @ rest) = map g xs @ split_on c rest"
  using assms
proof (induction xs)
  case Nil
  then show ?case by simp
next
  case (Cons x xs)
  have "c \<notin> set (g x)" using Cons.prems by simp
  then have "split_on c (g x @ c # (concat (map (\<lambda>x. g x @ [c]) xs) @ rest))
               = g x # split_on c (concat (map (\<lambda>x. g x @ [c]) xs) @ rest)"
    by (rule split_on_append_sep)
  moreover have "split_on c (concat (map (\<lambda>x. g x @ [c]) xs) @ rest) = map g xs @ split_on c rest"
    using Cons.prems by (intro Cons.IH) simp
  ultimately show ?case by simp
qed

lemma file_lines_terminated:
  assumes "\<And>x. x \<in> set xs \<Longrightarrow> CHR 0x0A \<notin> set (g x)"
  shows "file_lines (concat (map (\<lambda>x. g x @ endl) xs)) = map g xs"
proof -
  have "split_on (CHR 0x0A) (concat (map (\<lambda>x. g x @ [CHR 0x0A]) xs) @ []) = map g xs @ split_on (CHR 0x0A) []"
    using assms by (rule split_on_terminated)
  then show ?thesis by (simp add: file_lines_def endl_def)
qed

lemma file_lines_first:
  assumes "CHR 0x0A \<notin> set w"
  shows "hd (file_lines (w @ endl @ rest)) = w"
proof -
  have "split_on (CHR 0x0A) (w @ CHR 0x0A # rest) = w # split_on (CHR 0x0A) rest"
    using assms by (rule split_on_append_sep)
  moreover have "split_on (CHR 0x0A) rest \<noteq> []" by (cases rest) simp_all
  ultimately show ?thesis by (simp add: file_lines_def endl_def)
qed

lemma header_loop:
  fixes t :: "int \<Rightarrow> real"
  assumes "0 \<le> n"
  shows "for_upto 0 n
           (\<lambda>i out. let t = t i; out = out @ put_double t in if i < n then out @ '','' else out)
           ''Path,''
         = ''Path,'' @ concat (map (\<lambda>i. put_double (t i) @ '','') [0..n - 1]) @ put_double (t n)"
proof -
  let ?f = "\<lambda>i. put_double (t i) @ (if i < n then '','' else [])"
  have body: "(\<lambda>i out. let t = t i; out = out @ put_double t in if i < n then out @ '','' else out)
                = (\<lambda>i out. out @ ?f i)"
    by (intro ext) (simp add: Let_def)
  have up: "[0..n] = [0..n - 1] @ [n]" using assms by (simp add: upto_rec2)
  have m: "map ?f [0..n - 1] = map (\<lambda>i. put_double (t i) @ '','') [0..n - 1]"
    by (intro map_cong) auto
  have "concat (map ?f [0..n]) = concat (map ?f [0..n - 1]) @ ?f n"
    unfolding up by simp
  also have "\<dots> = concat (map (\<lambda>i. put_double (t i) @ '','') [0..n - 1]) @ put_double (t n)"
    unfolding m by simp
  finally have "concat (map ?f [0..n])
      = concat (map (\<lambda>i. put_double (t i) @ '','') [0..n - 1]) @ put_double (t n)" .
  then show ?thesis
    unfolding for_upto_fold body fold_append_out by simp
qed

lemma time_loop:
  fixes t :: "int \<Rightarrow> real"
  shows "for_upto 0 n (\<lambda>i out. let t = t i in out @ put_double t @ endl) []
         = concat (map (\<lambda>i. put_double (t i) @ endl) [0..n])"
proof -
  have body: "(\<lambda>i out. let t = t i in out @ put_double t @ endl)
                = (\<lambda>i out. out @ (put_double (t i) @ endl))"
    by (intro ext) (simp add: Let_def)
  show ?thesis
    unfolding for_upto_fold body fold_append_out by simp
qed

lemma header_cells:
  fixes t :: "int \<Rightarrow> real"
  assumes "0 \<le> n" and "\<And>x. CHR '','' \<notin> set (put_double x)"
  shows "split_on (CHR '','')
           (''Path,'' @ concat (map (\<lambda>i. put_double (t i) @ '','') [0..n - 1]) @ put_double (t n))
         = ''Path'' # map (\<lambda>i. put_double (t i)) [0..n]"
proof -
  have up: "[0..n] = [0..n - 1] @ [n]" using assms(1) by (simp add: upto_rec2)
  have a: "split_on (CHR '','') (''Path'' @ CHR '','' #
             (concat (map (\<lambda>i. put_double (t i) @ '','') [0..n - 1]) @ put_double (t n)))
           = ''Path'' # split_on (CHR '','')
               (concat (map (\<lambda>i. put_double (t i) @ '','') [0..n - 1]) @ put_double (t n))"
    by (rule split_on_append_sep) simp
  have b: "split_on (CHR '','')
             (concat (map (\<lambda>i. put_double (t i) @ [CHR '','']) [0..n - 1]) @ put_double (t n))
           = map (\<lambda>i. put_double (t i)) [0..n - 1] @ split_on (CHR '','') (put_double (t n))"
    using assms(2) by (intro split_on_terminated) simp
  have c: "split_on (CHR '','') (put_double (t n)) = [put_double (t n)]"
    using assms(2) by (rule split_on_no_sep)
  show ?thesis
    using a b c unfolding up by simp
qed


lemma vector_at_in_range: "0 \<le> i \<Longrightarrow> i < int (length v) \<Longrightarrow> vector_at v i = Inr (v ! nat i)"
  by (simp add: vector_at_def)

lemma rows_loop:
  fixes paths :: "real list list"
  assumes num: "num \<le> int (length paths)"
    and len: "\<And>path. path \<in> set paths \<Longrightarrow> n < int (length path)"
  shows "\<exists>rest.
    for_upto 0 (num - 1)
      (\<lambda>i st. case st of
           Inl e \<Rightarrow> Inl e
         | Inr out \<Rightarrow>
             (case for_upto 0 n
                     (\<lambda>j st. case st of
                          Inl e \<Rightarrow> Inl e
                        | Inr out \<Rightarrow>
                            (case vector_at paths i of
                               Inl e \<Rightarrow> Inl e
                             | Inr path \<Rightarrow>
                                (case vector_at path j of
                                   Inl e \<Rightarrow> Inl e
                                 | Inr price \<Rightarrow>
                                     Inr (if j < n
                                          then out @ put_double price @ '',''
                                          else out @ put_double price))))
                     (Inr (out @ put_int (i + 1) @ '',''))
              of Inl e \<Rightarrow> Inl e | Inr out \<Rightarrow> Inr (out @ endl)))
      (Inr H)
    = (Inr (H @ rest) :: error + string)"
proof (rule for_upto_invariant [where P = "\<lambda>st. \<exists>rest. st = (Inr (H @ rest) :: error + string)"])
  show "\<exists>rest. (Inr H :: error + string) = Inr (H @ rest)" by simp
next
  fix i :: int and st :: "error + string"
  assume i: "0 \<le> i" "i \<le> num - 1" and "\<exists>rest. st = Inr (H @ rest)"
  then obtain rest where st: "st = Inr (H @ rest)" by blast
  have ip: "vector_at paths i = Inr (paths ! nat i)"
    using i num by (intro vector_at_in_range) simp_all
  have pl: "n < int (length (paths ! nat i))"
    using i num by (intro len nth_mem) simp
  have "\<exists>rest'. for_upto 0 n
                     (\<lambda>j st. case st of
                          Inl e \<Rightarrow> Inl e
                        | Inr out \<Rightarrow>
                            (case vector_at paths i of
                               Inl e \<Rightarrow> Inl e
                             | Inr path \<Rightarrow>
                                (case vector_at path j of
                                   Inl e \<Rightarrow> Inl e
                                 | Inr price \<Rightarrow>
                                     Inr (if j < n
                                          then out @ put_double price @ '',''
                                          else out @ put_double price))))
                     (Inr ((H @ rest) @ put_int (i + 1) @ '',''))
                 = (Inr (H @ rest') :: error + string)"
  proof (rule for_upto_invariant [where P = "\<lambda>st. \<exists>rest. st = (Inr (H @ rest) :: error + string)"])
    show "\<exists>r. (Inr ((H @ rest) @ put_int (i + 1) @ '','') :: error + string) = Inr (H @ r)"
      by simp
  next
    fix j :: int and st' :: "error + string"
    assume j: "0 \<le> j" "j \<le> n" and "\<exists>rest. st' = Inr (H @ rest)"
    then obtain r where st': "st' = Inr (H @ r)" by blast
    have jp: "vector_at (paths ! nat i) j = Inr (paths ! nat i ! nat j)"
      using j pl by (intro vector_at_in_range) simp_all
    show "\<exists>rest. (case st' of
                    Inl e \<Rightarrow> Inl e
                  | Inr out \<Rightarrow>
                      (case vector_at paths i of
                         Inl e \<Rightarrow> Inl e
                       | Inr path \<Rightarrow>
                          (case vector_at path j of
                             Inl e \<Rightarrow> Inl e
                           | Inr price \<Rightarrow>
                               Inr (if j < n
                                    then out @ put_double price @ '',''
                                    else out @ put_double price))))
                 = (Inr (H @ rest) :: error + string)"
      unfolding st' ip jp sum.case by simp
  qed
  then obtain rest' where inner: "for_upto 0 n
                     (\<lambda>j st. case st of
                          Inl e \<Rightarrow> Inl e
                        | Inr out \<Rightarrow>
                            (case vector_at paths i of
                               Inl e \<Rightarrow> Inl e
                             | Inr path \<Rightarrow>
                                (case vector_at path j of
                                   Inl e \<Rightarrow> Inl e
                                 | Inr price \<Rightarrow>
                                     Inr (if j < n
                                          then out @ put_double price @ '',''
                                          else out @ put_double price))))
                     (Inr ((H @ rest) @ put_int (i + 1) @ '',''))
                 = (Inr (H @ rest') :: error + string)" by blast
  show "\<exists>rest. (case st of
           Inl e \<Rightarrow> Inl e
         | Inr out \<Rightarrow>
             (case for_upto 0 n
                     (\<lambda>j st. case st of
                          Inl e \<Rightarrow> Inl e
                        | Inr out \<Rightarrow>
                            (case vector_at paths i of
                               Inl e \<Rightarrow> Inl e
                             | Inr path \<Rightarrow>
                                (case vector_at path j of
                                   Inl e \<Rightarrow> Inl e
                                 | Inr price \<Rightarrow>
                                     Inr (if j < n
                                          then out @ put_double price @ '',''
                                          else out @ put_double price))))
                     (Inr (out @ put_int (i + 1) @ '',''))
              of Inl e \<Rightarrow> Inl e | Inr out \<Rightarrow> Inr (out @ endl)))
          = (Inr (H @ rest) :: error + string)"
    unfolding st sum.case inner by simp
qed

lemma not_in_concat_map: "(\<And>x. c \<notin> set (g x)) \<Longrightarrow> c \<notin> set (concat (map g xs))"
  by (induction xs) simp_all

subsection \<open>The run with a negative initial price\<close>

lemma generatePath_negative_price:
  "generatePath counting_source negative_price_params (0::nat) = Inr ([- 100, - (100 * exp (2 / 25))], 1)"
  by (simp add: generatePath_def negative_price_params_def counting_source_def Let_def
        generatePath_loop.simps eval_nat_numeral)

lemma runMonteCarloSimulation_negative_price:
  "runMonteCarloSimulation counting_source negative_price_params (0::nat)
     = Inr [[- 100, - (100 * exp (2 / 25))]]"
proof -
  have n: "num_paths negative_price_params = 1" by (simp add: negative_price_params_def)
  show ?thesis
    unfolding runMonteCarloSimulation_def n
    by (simp add: for_upto.simps generatePath_negative_price)
qed


lemma calculateStatistics_negative_price:
  "calculateStatistics [[- 100, - (100 * exp (2 / 25))]] negative_price_params =
     Inr \<lparr>Mean = - (100 * exp (2 / 25)), Standard_Deviation = 0,
          Minimum = - (100 * exp (2 / 25)), Maximum = - (100 * exp (2 / 25)),
          Percentile_5th = - (100 * exp (2 / 25)), Percentile_95th = - (100 * exp (2 / 25))\<rparr>"
  by (simp add: calculateStatistics_def negative_price_params_def Let_def
        vector_at_def static_cast_int_def)

lemma saveResultsToCSV_negative_price:
  "\<exists>files. saveResultsToCSV example_put_double example_put_int
             [[- 100, - (100 * exp (2 / 25))]] negative_price_params = Inr files"
  by (simp add: saveResultsToCSV_def negative_price_params_def Let_def for_upto.simps
        vector_at_def)

subsection \<open>Properties of runMonteCarloSimulation\<close>

lemma for_upto_invariant_indexed:
  assumes "lo \<le> hi + 1" and "P lo s"
    and "\<And>i s. lo \<le> i \<Longrightarrow> i \<le> hi \<Longrightarrow> P i s \<Longrightarrow> P (i + 1) (body i s)"
  shows "P (hi + 1) (for_upto lo hi body s)"
  using assms
proof (induction lo hi body s rule: for_upto.induct)
  case (1 i hi body s)
  show ?case
  proof (cases "i \<le> hi")
    case True
    have "P (i + 1) (body i s)" using True "1.prems"(2) by (intro "1.prems"(3)) simp_all
    moreover have "\<And>j s. i + 1 \<le> j \<Longrightarrow> j \<le> hi \<Longrightarrow> P j s \<Longrightarrow> P (j + 1) (body j s)"
      by (rule "1.prems"(3)) simp_all
    ultimately have "P (hi + 1) (for_upto (i + 1) hi body (body i s))"
      using True by (intro "1.IH") simp_all
    then show ?thesis using True by (subst for_upto.simps) simp
  next
    case False
    with "1.prems"(1) have "i = hi + 1" by simp
    then show ?thesis using "1.prems"(2) False by (subst for_upto.simps) simp
  qed
qed

text \<open>
  What the simulation hands to the statistics and to the export: for \<open>steps \<ge> 0\<close> and
  \<open>num_paths \<ge> 0\<close> it returns \<open>num_paths\<close> paths of \<open>steps + 1\<close> prices each.
\<close>

lemma runMonteCarloSimulation_ensemble:
  assumes "0 \<le> steps params" and "0 \<le> num_paths params"
  shows "\<exists>paths. runMonteCarloSimulation nd params seed = Inr paths \<and>
           int (length paths) = num_paths params \<and>
           (\<forall>path \<in> set paths. int (length path) = steps params + 1)"
proof -
  let ?num = "num_paths params"
  let ?P = "\<lambda>i (st :: error + real list list \<times> 'b). \<exists>paths gen. st = Inr (paths, gen) \<and>
              int (length paths) = ?num \<and>
              (\<forall>k. k < nat i \<longrightarrow> int (length (paths ! k)) = steps params + 1)"
  let ?body = "\<lambda>i st. case st of
                    Inl e \<Rightarrow> Inl e
                  | Inr (paths, gen) \<Rightarrow>
                      (case generatePath nd params gen of
                         Inl e \<Rightarrow> Inl e
                       | Inr (path, gen') \<Rightarrow> Inr (paths[nat i := path], gen'))"
  have "?P (?num - 1 + 1) (for_upto 0 (?num - 1) ?body (Inr (replicate (nat ?num) [], seed)))"
  proof (rule for_upto_invariant_indexed [where P = ?P])
    show "0 \<le> ?num - 1 + 1" using assms(2) by simp
    show "?P 0 (Inr (replicate (nat ?num) [], seed))" using assms(2) by simp
  next
    fix i :: int and st :: "error + real list list \<times> 'b"
    assume i: "0 \<le> i" "i \<le> ?num - 1" and "?P i st"
    then obtain paths gen where st: "st = Inr (paths, gen)"
      and l: "int (length paths) = ?num"
      and prev: "\<And>k. k < nat i \<Longrightarrow> int (length (paths ! k)) = steps params + 1"
      by blast
    obtain path gen' Zs d' where g: "generatePath nd params gen = Inr (path, gen')"
      and pl: "length path = nat (steps params + 1)"
      by (rule generatePath_result [OF assms(1), of nd gen]) blast
    have b: "?body i st = Inr (paths[nat i := path], gen')"
      by (simp add: st g)
    have "int (length ((paths[nat i := path]) ! k)) = steps params + 1" if "k < nat (i + 1)" for k
    proof (cases "k = nat i")
      case True
      then have "(paths[nat i := path]) ! k = path" using i l by simp
      then show ?thesis using pl assms(1) by simp
    next
      case False
      with that i have "k < nat i" by linarith
      then show ?thesis using False prev by simp
    qed
    then show "?P (i + 1) (?body i st)"
      unfolding b using l by simp
  qed
  then obtain paths gen where
    r: "for_upto 0 (?num - 1) ?body (Inr (replicate (nat ?num) [], seed)) = Inr (paths, gen)"
    and l: "int (length paths) = ?num"
    and a: "\<And>k. k < nat ?num \<Longrightarrow> int (length (paths ! k)) = steps params + 1"
    by auto
  have "runMonteCarloSimulation nd params seed = Inr paths"
    unfolding runMonteCarloSimulation_def r using assms(2) by simp
  moreover have "\<forall>path \<in> set paths. int (length path) = steps params + 1"
  proof
    fix path assume "path \<in> set paths"
    then obtain k where "k < length paths" "path = paths ! k" by (auto simp: in_set_conv_nth)
    with a [of k] l show "int (length path) = steps params + 1" by simp
  qed
  ultimately show ?thesis using l by blast
qed

subsection \<open>Properties of the binary64 rounding\<close>















subsection \<open>Properties of the rounded generatePath\<close>




text \<open>Without rounding, the rounded functions are the exact ones.\<close>

lemma generatePath_loop_rounded_id:
  "generatePath_loop_rounded (\<lambda>x. x) nd drift vol n i path d gen
     = generatePath_loop nd drift vol n i path d gen"
proof (induction nd drift vol n i path d gen rule: generatePath_loop.induct)
  case (1 nd drift vol n i path d gen)
  show ?case
  proof (cases "i \<le> n")
    case True
    obtain Z d1 g1 where dr: "draw nd d gen = (Z, d1, g1)"
      by (cases "draw nd d gen") auto
    show ?thesis
      using True dr "1.IH" [OF True dr [symmetric] refl]
      by (subst generatePath_loop_rounded.simps, subst generatePath_loop.simps) simp
  next
    case False
    then show ?thesis
      by (subst generatePath_loop_rounded.simps, subst generatePath_loop.simps) simp
  qed
qed

lemma generatePath_rounded_id:
  "generatePath_rounded (\<lambda>x. x) nd params gen = generatePath nd params gen"
  by (simp add: generatePath_rounded_def generatePath_def generatePath_loop_rounded_id)

lemma calculateStatistics_rounded_id:
  "calculateStatistics_rounded (\<lambda>x. x) paths params = calculateStatistics paths params"
  by (simp add: calculateStatistics_rounded_def calculateStatistics_def)

subsection \<open>Some binary64 values\<close>

















subsection \<open>Properties of the binary64 generatePath\<close>







subsection \<open>Properties of the binary64 calculateStatistics\<close>




























subsection \<open>The exact reading of the three statements that rounding changes\<close>

text \<open>In exact arithmetic every price of a path is strictly positive.\<close>

lemma generatePath_exact_shape:
  assumes "0 < S0 params" and "0 \<le> sigma params" and "0 < T params" and "1 \<le> steps params"
  shows "\<exists>path gen'. generatePath nd params gen = Inr (path, gen') \<and>
           int (length path) = steps params + 1 \<and> path ! 0 = S0 params \<and> (\<forall>x \<in> set path. 0 < x)"
proof -
  from assms have "0 \<le> steps params" by simp
  then obtain path gen' Zs d' where
    r: "generatePath nd params gen = Inr (path, gen')"
      "length path = nat (steps params + 1)"
      "path ! 0 = S0 params"
      "\<And>j. 1 \<le> j \<Longrightarrow> j \<le> steps params \<Longrightarrow>
         path ! nat j = path ! nat (j - 1) *
           exp ((mu params - 0.5 * sigma params * sigma params) * (T params / real_of_int (steps params))
              + sigma params * sqrt (T params / real_of_int (steps params)) * Zs ! nat (j - 1))"
    by (rule generatePath_result [of params nd gen]) blast
  have pos: "0 < path ! k" if "k \<le> nat (steps params)" for k
    using path_positive [of path "steps params", OF _ r(4) that] assms(1) r(3) by simp
  have "\<forall>x \<in> set path. 0 < x"
  proof
    fix x assume "x \<in> set path"
    then obtain k where "k < length path" "x = path ! k" by (auto simp: in_set_conv_nth)
    with pos [of k] r(2) show "0 < x" by simp
  qed
  with r(1,2,3) assms show ?thesis by simp
qed

text \<open>In exact arithmetic the path for \<open>sigma = 0\<close> has the closed form \<open>S0 * exp (mu * i * dt)\<close>.\<close>

lemma generatePath_exact_sigma_zero:
  assumes "sigma params = 0" and "0 < T params" and "1 \<le> steps params"
  shows "\<exists>path gen'. generatePath nd params gen = Inr (path, gen') \<and>
           int (length path) = steps params + 1 \<and>
           (\<forall>i. 0 \<le> i \<and> i \<le> steps params \<longrightarrow>
              path ! nat i =
                S0 params * exp (mu params * real_of_int i * (T params / real_of_int (steps params))))"
proof -
  let ?dt = "T params / real_of_int (steps params)"
  from assms have "0 \<le> steps params" by simp
  then obtain path gen' Zs d' where
    r: "generatePath nd params gen = Inr (path, gen')"
      "length path = nat (steps params + 1)"
      "path ! 0 = S0 params"
      "\<And>j. 1 \<le> j \<Longrightarrow> j \<le> steps params \<Longrightarrow>
         path ! nat j = path ! nat (j - 1) *
           exp ((mu params - 0.5 * sigma params * sigma params) * (T params / real_of_int (steps params))
              + sigma params * sqrt (T params / real_of_int (steps params)) * Zs ! nat (j - 1))"
    by (rule generatePath_result [of params nd gen]) blast
  have step: "path ! nat j = path ! nat (j - 1) * exp (mu params * ?dt)"
    if "1 \<le> j" "j \<le> steps params" for j
    using r(4) [OF that] assms(1) by simp
  have val: "k \<le> nat (steps params) \<Longrightarrow> path ! k = S0 params * exp (mu params * real k * ?dt)" for k
  proof (induction k)
    case 0
    then show ?case using r(3) by simp
  next
    case (Suc k)
    then have ih: "path ! k = S0 params * exp (mu params * real k * ?dt)" by simp
    have "path ! nat (int (Suc k)) = path ! nat (int (Suc k) - 1) * exp (mu params * ?dt)"
      using Suc.prems by (intro step) auto
    moreover have "nat (int (Suc k)) = Suc k" "nat (int (Suc k) - 1) = k" by simp_all
    ultimately have "path ! Suc k = path ! k * exp (mu params * ?dt)" by (simp only:)
    then have "path ! Suc k = S0 params * (exp (mu params * real k * ?dt) * exp (mu params * ?dt))"
      using ih by (simp only: mult.assoc)
    also have "exp (mu params * real k * ?dt) * exp (mu params * ?dt)
                 = exp (mu params * real (Suc k) * ?dt)"
      by (simp add: exp_add [symmetric] algebra_simps)
    finally show ?case .
  qed
  have "\<forall>i. 0 \<le> i \<and> i \<le> steps params \<longrightarrow>
          path ! nat i = S0 params * exp (mu params * real_of_int i * ?dt)"
  proof (intro allI impI)
    fix i assume i: "0 \<le> i \<and> i \<le> steps params"
    then have "nat i \<le> nat (steps params)" by linarith
    from val [OF this] i show "path ! nat i = S0 params * exp (mu params * real_of_int i * ?dt)"
      by (simp only: of_nat_nat)
  qed
  with r(1,2) assms show ?thesis by simp
qed

text \<open>
  In exact arithmetic the standard deviation is \<open>0\<close> exactly when all terminal values
  are the same.
\<close>

lemma calculateStatistics_exact_std_dev_zero_iff:
  assumes "paths \<noteq> []" and "0 \<le> steps params"
    and "\<And>path. path \<in> set paths \<Longrightarrow> int (length path) = steps params + 1"
  shows "\<exists>st. calculateStatistics paths params = Inr st \<and> 0 \<le> Standard_Deviation st \<and>
           (Standard_Deviation st = 0 \<longleftrightarrow>
              (\<forall>x \<in> set (map last paths). \<forall>y \<in> set (map last paths). x = y))"
proof -
  let ?tv = "map last paths"
  let ?n = "real (length paths)"
  let ?m = "sum_list ?tv / ?n"
  let ?S = "\<Sum>x\<leftarrow>?tv. (x - ?m)\<^sup>2"
  have n: "0 < ?n" using assms(1) by simp
  have nonneg: "0 \<le> sqrt (?S / ?n)"
    using sum_squares_nonneg [of ?m ?tv] n by simp
  have "sqrt (?S / ?n) = 0 \<longleftrightarrow> ?S = 0" using n by simp
  also have "\<dots> \<longleftrightarrow> (\<forall>x \<in> set ?tv. x = ?m)" by (rule sum_squares_zero_iff)
  also have "\<dots> \<longleftrightarrow> (\<forall>x \<in> set ?tv. \<forall>y \<in> set ?tv. x = y)"
  proof
    assume "\<forall>x \<in> set ?tv. x = ?m"
    then show "\<forall>x \<in> set ?tv. \<forall>y \<in> set ?tv. x = y" by metis
  next
    assume same: "\<forall>x \<in> set ?tv. \<forall>y \<in> set ?tv. x = y"
    have ne: "?tv \<noteq> []" using assms(1) by simp
    then have hd: "hd ?tv \<in> set ?tv" by (rule hd_in_set)
    have "sum_list ?tv = real (length ?tv) * hd ?tv"
      using same hd by (intro sum_list_constant) blast
    then have "?m = hd ?tv" using n by simp
    then show "\<forall>x \<in> set ?tv. x = ?m" using same hd by metis
  qed
  finally have iff: "sqrt (?S / ?n) = 0 \<longleftrightarrow> (\<forall>x \<in> set ?tv. \<forall>y \<in> set ?tv. x = y)" .
  have sd: "\<exists>st. calculateStatistics paths params = Inr st \<and>
              Standard_Deviation st = sqrt (?S / ?n)"
    using calculateStatistics_result [OF assms] by simp
  then obtain st where "calculateStatistics paths params = Inr st"
    and "Standard_Deviation st = sqrt (?S / ?n)" by blast
  then show ?thesis using nonneg iff by (intro exI [of _ st]) (simp only: simp_thms)
qed

section \<open>The claims\<close>

text \<open>
  C1. For parameters with \<open>steps \<ge> 1\<close> and \<open>T > 0\<close> and any state of the random
  source, \<^verbatim>\<open>generatePath\<close> returns a path that obeys the log-Euler recurrence: with
  \<open>dt = T / steps\<close>, \<open>drift = (mu - 0.5 * sigma\<^sup>2) * dt\<close> and \<open>vol = sigma * sqrt dt\<close>, the
  same for every step, \<open>price[i] = price[i - 1] * exp (drift + vol * Z\<^sub>i)\<close> for
  \<open>i = 1, \<dots>, steps\<close>, where \<open>Z\<^sub>i\<close> is the sample of the \<open>i\<close>-th of \<open>steps\<close>
  successive draws from a fresh distribution object: one draw per step, and the engine
  is left in the state after exactly \<open>steps\<close> draws.
\<close>

theorem generatePath_recurrence:
  assumes "1 \<le> steps params" and "0 < T params"
  shows "\<exists>path gen'. generatePath nd params gen = Inr (path, gen') \<and>
    (case samples nd (nat (steps params)) (fresh nd) gen of (Zs, d', g') \<Rightarrow>
       gen' = g' \<and> length Zs = nat (steps params) \<and>
       (let dt = T params / real_of_int (steps params);
            drift = (mu params - 0.5 * (sigma params)\<^sup>2) * dt;
            vol = sigma params * sqrt dt
        in \<forall>i. 1 \<le> i \<and> i \<le> steps params \<longrightarrow>
             path ! nat i = path ! nat (i - 1) * exp (drift + vol * Zs ! nat (i - 1))))"
proof -
  from assms have "0 \<le> steps params" by simp
  then obtain path gen' Zs d' where
    r: "generatePath nd params gen = Inr (path, gen')"
      "samples nd (nat (steps params)) (fresh nd) gen = (Zs, d', gen')"
      "length Zs = nat (steps params)"
      "\<And>j. 1 \<le> j \<Longrightarrow> j \<le> steps params \<Longrightarrow>
         path ! nat j = path ! nat (j - 1) *
           exp ((mu params - 0.5 * sigma params * sigma params) * (T params / real_of_int (steps params))
              + sigma params * sqrt (T params / real_of_int (steps params)) * Zs ! nat (j - 1))"
    by (rule generatePath_result [of params nd gen]) blast
  have "\<forall>i. 1 \<le> i \<and> i \<le> steps params \<longrightarrow>
      path ! nat i = path ! nat (i - 1) *
           exp ((mu params - 0.5 * (sigma params)\<^sup>2) * (T params / real_of_int (steps params))
              + sigma params * sqrt (T params / real_of_int (steps params)) * Zs ! nat (i - 1))"
    using r(4) unfolding power2_eq_square mult.assoc by blast
  then show ?thesis
    using r(1,2,3) by (simp add: Let_def)
qed

theorem generatePath_recurrence_witness:
  "1 \<le> steps example_params \<and> 0 < T example_params \<and>
   (\<exists>path gen'. generatePath counting_source example_params (0::nat) = Inr (path, gen') \<and>
      gen' = 2 \<and>
      path ! 1 = path ! 0 * exp ((0.08 - 0.5 * 0.2\<^sup>2) * (1 / 2) + 0.2 * sqrt (1 / 2) * 0) \<and>
      path ! 2 = path ! 1 * exp ((0.08 - 0.5 * 0.2\<^sup>2) * (1 / 2) + 0.2 * sqrt (1 / 2) * 1))"
proof -
  have h1: "1 \<le> steps example_params" by (simp add: example_params_def)
  have h2: "0 < T example_params" by (simp add: example_params_def)
  have n: "nat (steps example_params) = Suc (Suc 0)" by (simp add: example_params_def)
  have sm: "samples counting_source (nat (steps example_params)) (fresh counting_source) 0
              = ([0, 1], (), 2)"
    unfolding n by (simp add: counting_source_def)
  obtain path gen' where
    r: "generatePath counting_source example_params (0::nat) = Inr (path, gen')"
    and g: "gen' = 2"
    and rec: "\<forall>i. 1 \<le> i \<and> i \<le> steps example_params \<longrightarrow>
             path ! nat i = path ! nat (i - 1) *
               exp ((mu example_params - 0.5 * (sigma example_params)\<^sup>2) *
                      (T example_params / real_of_int (steps example_params))
                    + sigma example_params *
                      sqrt (T example_params / real_of_int (steps example_params)) *
                      [0, 1] ! nat (i - 1))"
    using generatePath_recurrence [OF h1 h2, of counting_source 0]
    unfolding sm prod.case Let_def by blast
  have s1: "path ! 1 = path ! 0 * exp ((0.08 - 0.5 * 0.2\<^sup>2) * (1 / 2) + 0.2 * sqrt (1 / 2) * 0)"
    using rec [THEN spec, of 1] by (simp add: example_params_def)
  have s2: "path ! 2 = path ! 1 * exp ((0.08 - 0.5 * 0.2\<^sup>2) * (1 / 2) + 0.2 * sqrt (1 / 2) * 1)"
    using rec [THEN spec, of 2] by (simp add: example_params_def)
  show ?thesis
    using h1 h2 r g s1 s2 by blast
qed




text \<open>
  C3. For a nonempty ensemble (every path of \<open>steps + 1\<close> prices),
  \<^verbatim>\<open>calculateStatistics\<close> returns as 5th and 95th percentile the elements at the
  0-based positions \<open>\<lfloor>0.05 * n\<rfloor>\<close> and \<open>\<lfloor>0.95 * n\<rfloor>\<close> of the terminal values sorted
  in ascending order, \<open>n\<close> the number of paths, with no interpolation; for exactly
  \<open>100\<close> paths these are the elements \<open>5\<close> and \<open>95\<close>.
\<close>

theorem calculateStatistics_percentiles:
  assumes "paths \<noteq> []" and "0 \<le> steps params"
    and "\<And>path. path \<in> set paths \<Longrightarrow> int (length path) = steps params + 1"
  shows "\<exists>st. calculateStatistics paths params = Inr st \<and>
           (let v = sort (map last paths); n = length paths
            in Percentile_5th st = v ! nat \<lfloor>0.05 * real n\<rfloor> \<and>
               Percentile_95th st = v ! nat \<lfloor>0.95 * real n\<rfloor> \<and>
               (n = 100 \<longrightarrow> Percentile_5th st = v ! 5 \<and> Percentile_95th st = v ! 95))"
proof -
  have "length paths = 100 \<Longrightarrow> nat \<lfloor>0.05 * real (length paths)\<rfloor> = 5" by simp
  moreover have "length paths = 100 \<Longrightarrow> nat \<lfloor>0.95 * real (length paths)\<rfloor> = 95" by simp
  moreover note calculateStatistics_result [OF assms]
  ultimately show ?thesis
    by (simp add: Let_def)
qed

theorem calculateStatistics_percentiles_witness:
  "hundred_ensemble \<noteq> [] \<and> 0 \<le> steps hundred_params \<and>
   list_all (\<lambda>path. int (length path) = steps hundred_params + 1) hundred_ensemble \<and>
   length hundred_ensemble = 100 \<and>
   (\<exists>st. calculateStatistics hundred_ensemble hundred_params = Inr st \<and>
      Percentile_5th st = 6 \<and> Percentile_95th st = 96)"
proof -
  have h1: "hundred_ensemble \<noteq> []" by (simp add: hundred_ensemble_def)
  have h2: "0 \<le> steps hundred_params" by (simp add: hundred_params_def)
  have h3: "int (length path) = steps hundred_params + 1" if "path \<in> set hundred_ensemble" for path
    using that by (auto simp: hundred_ensemble_def hundred_params_def)
  have n: "length hundred_ensemble = 100" by (simp add: hundred_ensemble_def)
  obtain st where r: "calculateStatistics hundred_ensemble hundred_params = Inr st"
    and p: "length hundred_ensemble = 100 \<longrightarrow>
            Percentile_5th st = sort (map last hundred_ensemble) ! 5 \<and>
            Percentile_95th st = sort (map last hundred_ensemble) ! 95"
    using calculateStatistics_percentiles [OF h1 h2 h3] unfolding Let_def by blast
  have "Percentile_5th st = 6" "Percentile_95th st = 96"
    using p n unfolding hundred_ensemble_sorted by simp_all
  moreover have "list_all (\<lambda>path. int (length path) = steps hundred_params + 1) hundred_ensemble"
    using h3 by (simp only: list_all_iff) blast
  ultimately show ?thesis using h1 h2 n r by blast
qed

text \<open>
  C4. For a nonempty ensemble, the standard deviation that \<^verbatim>\<open>calculateStatistics\<close>
  computes is the population standard deviation of the terminal values: the square
  root of the sum of the squared deviations from their mean, divided by the number of
  paths \<open>n\<close> (not by \<open>n - 1\<close>).
\<close>

theorem calculateStatistics_std_dev_population:
  assumes "paths \<noteq> []" and "0 \<le> steps params"
    and "\<And>path. path \<in> set paths \<Longrightarrow> int (length path) = steps params + 1"
  shows "\<exists>st. calculateStatistics paths params = Inr st \<and>
           (let terminal = map last paths;
                n = real (length paths);
                m = sum_list terminal / n
            in Mean st = m \<and>
               Standard_Deviation st = sqrt ((\<Sum>x\<leftarrow>terminal. (x - m)\<^sup>2) / n))"
  using calculateStatistics_result [OF assms] by (simp add: Let_def)

theorem calculateStatistics_std_dev_population_witness:
  "example_ensemble \<noteq> [] \<and> 0 \<le> steps example_params \<and>
   list_all (\<lambda>path. int (length path) = steps example_params + 1) example_ensemble \<and>
   (\<exists>st. calculateStatistics example_ensemble example_params = Inr st \<and>
      Mean st = 100 \<and> Standard_Deviation st = sqrt (200 / 3))"
proof -
  have h1: "example_ensemble \<noteq> []" by (simp add: example_ensemble_def)
  have h2: "0 \<le> steps example_params" by (simp add: example_params_def)
  have h3: "int (length path) = steps example_params + 1" if "path \<in> set example_ensemble" for path
    using that by (auto simp: example_ensemble_def example_params_def)
  show ?thesis
    using calculateStatistics_std_dev_population [OF h1 h2 h3] h1 h2
    by (simp add: example_ensemble_def example_params_def Let_def)
qed

text \<open>
  C5. The claim: a parameter set with \<open>S0 \<le> 0\<close>, \<open>sigma < 0\<close>, \<open>T \<le> 0\<close>, \<open>steps < 1\<close>
  or \<open>num_paths < 1\<close> is rejected before \<^verbatim>\<open>runMonteCarloSimulation\<close> runs. It fails:
  with the initial price \<open>-100\<close> the program calls the simulation, the statistics,
  the export and the plot, in this order, and ends normally.
\<close>

theorem main_rejects_invalid_counterexample:
  "InvalidParameter negative_price_params \<and>
   fst (main_program counting_source example_put_double example_put_int negative_price_params (0::nat))
     = [Call_runMonteCarloSimulation negative_price_params, Call_calculateStatistics,
        Call_saveResultsToCSV, Call_generatePlotHTML]"
proof -
  have "InvalidParameter negative_price_params"
    by (simp add: InvalidParameter_def negative_price_params_def)
  moreover obtain files where "saveResultsToCSV example_put_double example_put_int
             [[- 100, - (100 * exp (2 / 25))]] negative_price_params = Inr files"
    using saveResultsToCSV_negative_price by blast
  ultimately show ?thesis
    by (simp add: main_program_def runMonteCarloSimulation_negative_price
          calculateStatistics_negative_price)
qed

text \<open>
  C5, as the code has it. \<^verbatim>\<open>main\<close> checks nothing: for every parameter set read,
  valid or not, its first call is \<^verbatim>\<open>runMonteCarloSimulation\<close> with the parameters
  as read.
\<close>

theorem main_never_rejects:
  "\<exists>rest. fst (main_program nd put_double put_int params seed)
            = Call_runMonteCarloSimulation params # rest"
  by (simp add: main_program_def split: sum.splits)

theorem main_never_rejects_witness:
  "InvalidParameter negative_price_params \<and>
   (\<exists>rest. fst (main_program counting_source example_put_double example_put_int
                   negative_price_params (0::nat))
            = Call_runMonteCarloSimulation negative_price_params # rest)"
  using main_never_rejects [of counting_source example_put_double example_put_int
      negative_price_params 0]
  by (simp add: InvalidParameter_def negative_price_params_def)

text \<open>
  C6. For a nonempty ensemble, the statistics that \<^verbatim>\<open>calculateStatistics\<close> computes
  satisfy minimum \<open>\<le>\<close> 5th percentile \<open>\<le>\<close> 95th percentile \<open>\<le>\<close> maximum.
\<close>

theorem calculateStatistics_order:
  assumes "paths \<noteq> []" and "0 \<le> steps params"
    and "\<And>path. path \<in> set paths \<Longrightarrow> int (length path) = steps params + 1"
  shows "\<exists>st. calculateStatistics paths params = Inr st \<and>
           Minimum st \<le> Percentile_5th st \<and> Percentile_5th st \<le> Percentile_95th st \<and>
           Percentile_95th st \<le> Maximum st"
proof -
  let ?tv = "map last paths"
  let ?v = "sort ?tv"
  let ?i = "nat \<lfloor>0.05 * real (length paths)\<rfloor>"
  let ?j = "nat \<lfloor>0.95 * real (length paths)\<rfloor>"
  have n: "0 < length paths" using assms(1) by simp
  have i: "?i < length ?v" using percentile_index_less [OF n, of "0.05"] by simp
  have j: "?j < length ?v" using percentile_index_less [OF n, of "0.95"] by simp
  have ij: "?i \<le> ?j" by (rule percentile_index_order)
  have mem_i: "?v ! ?i \<in> set ?tv" using nth_mem [OF i] by simp
  have mem_j: "?v ! ?j \<in> set ?tv" using nth_mem [OF j] by simp
  have a: "Min (set ?tv) \<le> ?v ! ?i" using mem_i by (intro Min_le) simp_all
  have b: "?v ! ?i \<le> ?v ! ?j" using ij j by (intro sorted_nth_mono) simp_all
  have c: "?v ! ?j \<le> Max (set ?tv)" using mem_j by (intro Max_ge) simp_all
  show ?thesis
    using calculateStatistics_result [OF assms] a b c by simp
qed

theorem calculateStatistics_order_witness:
  "example_ensemble \<noteq> [] \<and> 0 \<le> steps example_params \<and>
   list_all (\<lambda>path. int (length path) = steps example_params + 1) example_ensemble \<and>
   (\<exists>st. calculateStatistics example_ensemble example_params = Inr st \<and>
      Minimum st \<le> Percentile_5th st \<and> Percentile_5th st \<le> Percentile_95th st \<and>
      Percentile_95th st \<le> Maximum st)"
proof -
  have h1: "example_ensemble \<noteq> []" by (simp add: example_ensemble_def)
  have h2: "0 \<le> steps example_params" by (simp add: example_params_def)
  have h3: "int (length path) = steps example_params + 1" if "path \<in> set example_ensemble" for path
    using that by (auto simp: example_ensemble_def example_params_def)
  have h3': "list_all (\<lambda>path. int (length path) = steps example_params + 1) example_ensemble"
    using h3 by (simp only: list_all_iff) blast
  show ?thesis
    using calculateStatistics_order [OF h1 h2 h3] h1 h2 h3' by blast
qed







text \<open>
  C9. For valid parameters and an ensemble of at least \<open>num_paths\<close> paths of
  \<open>steps + 1\<close> prices, \<^verbatim>\<open>saveResultsToCSV\<close> writes a time-points file of exactly
  \<open>steps + 1\<close> lines, the \<open>i\<close>-th being the text of \<open>i * (T / steps)\<close> for
  \<open>i = 0, \<dots>, steps\<close>, and the cells of the header row of the paths file after the
  label \<open>Path\<close> are the same texts in the same order. The text of a double contains
  neither a comma nor a newline.
\<close>

theorem saveResultsToCSV_time_points:
  assumes st: "1 \<le> steps params"
    and num: "num_paths params \<le> int (length paths)"
    and len: "\<And>path. path \<in> set paths \<Longrightarrow> int (length path) = steps params + 1"
    and comma: "\<And>x. CHR '','' \<notin> set (put_double x)"
    and newline: "\<And>x. CHR 0x0A \<notin> set (put_double x)"
  shows "\<exists>all_paths_file time_file.
           saveResultsToCSV put_double put_int paths params = Inr (all_paths_file, time_file) \<and>
           file_lines time_file =
             map (\<lambda>i. put_double (real_of_int i * (T params / real_of_int (steps params))))
               [0..steps params] \<and>
           int (length (file_lines time_file)) = steps params + 1 \<and>
           split_on (CHR '','') (hd (file_lines all_paths_file)) = ''Path'' # file_lines time_file"
proof -
  let ?n = "steps params"
  let ?t = "\<lambda>i. real_of_int i * (T params / real_of_int ?n)"
  let ?H = "''Path,'' @ concat (map (\<lambda>i. put_double (?t i) @ '','') [0..?n - 1]) @ put_double (?t ?n)"
  let ?TF = "concat (map (\<lambda>i. put_double (?t i) @ endl) [0..?n])"
  have n0: "0 \<le> ?n" using st by simp
  note hl = header_loop [OF n0, where t = ?t and put_double = put_double, unfolded Let_def]
  note tl = time_loop [where t = ?t and put_double = put_double and n = ?n, unfolded Let_def]
  have len': "?n < int (length path)" if "path \<in> set paths" for path
    using len [OF that] by simp
  obtain rest where rows: "for_upto 0 (num_paths params - 1)
      (\<lambda>i st. case st of
           Inl e \<Rightarrow> Inl e
         | Inr out \<Rightarrow>
             (case for_upto 0 ?n
                     (\<lambda>j st. case st of
                          Inl e \<Rightarrow> Inl e
                        | Inr out \<Rightarrow>
                            (case vector_at paths i of
                               Inl e \<Rightarrow> Inl e
                             | Inr path \<Rightarrow>
                                (case vector_at path j of
                                   Inl e \<Rightarrow> Inl e
                                 | Inr price \<Rightarrow>
                                     Inr (if j < ?n
                                          then out @ put_double price @ '',''
                                          else out @ put_double price))))
                     (Inr (out @ put_int (i + 1) @ '',''))
              of Inl e \<Rightarrow> Inl e | Inr out \<Rightarrow> Inr (out @ endl)))
      (Inr (?H @ endl))
    = (Inr ((?H @ endl) @ rest) :: error + string)"
    using rows_loop [OF num len', where H = "?H @ endl" and put_double = put_double
        and put_int = put_int] by blast
  have res: "saveResultsToCSV put_double put_int paths params = Inr ((?H @ endl) @ rest, ?TF)"
    unfolding saveResultsToCSV_def Let_def hl tl rows sum.case by (rule refl)
  have lines: "file_lines ?TF = map (\<lambda>i. put_double (?t i)) [0..?n]"
    using newline by (intro file_lines_terminated)
  have count: "int (length (file_lines ?TF)) = ?n + 1"
    unfolding lines using n0 by simp
  have nlH: "CHR 0x0A \<notin> set ?H"
  proof -
    have "CHR 0x0A \<notin> set (put_double x @ '','')" for x using newline [of x] by simp
    then have "CHR 0x0A \<notin> set (concat (map (\<lambda>i. put_double (?t i) @ '','') [0..?n - 1]))"
      by (rule not_in_concat_map)
    moreover have "CHR 0x0A \<notin> set ''Path,''" by simp
    ultimately show ?thesis using newline [of "?t ?n"] by (simp only: set_append Un_iff simp_thms not_False_eq_True)
  qed
  have "hd (file_lines (?H @ endl @ rest)) = ?H"
    using nlH by (rule file_lines_first)
  then have first: "hd (file_lines ((?H @ endl) @ rest)) = ?H" by simp
  have cells: "split_on (CHR '','') ?H = ''Path'' # map (\<lambda>i. put_double (?t i)) [0..?n]"
    using n0 comma by (rule header_cells)
  show ?thesis
  proof (intro exI conjI)
    show "saveResultsToCSV put_double put_int paths params = Inr ((?H @ endl) @ rest, ?TF)"
      by (rule res)
    show "file_lines ?TF = map (\<lambda>i. put_double (?t i)) [0..?n]" by (rule lines)
    show "int (length (file_lines ?TF)) = ?n + 1" by (rule count)
    show "split_on (CHR '','') (hd (file_lines ((?H @ endl) @ rest))) = ''Path'' # file_lines ?TF"
      unfolding first cells lines by (rule refl)
  qed
qed


theorem saveResultsToCSV_time_points_witness:
  "1 \<le> steps example_params \<and>
   num_paths example_params \<le> int (length example_ensemble) \<and>
   list_all (\<lambda>path. int (length path) = steps example_params + 1) example_ensemble \<and>
   (\<forall>x. CHR '','' \<notin> set (example_put_double x)) \<and>
   (\<forall>x. CHR 0x0A \<notin> set (example_put_double x)) \<and>
   (\<exists>all_paths_file time_file.
      saveResultsToCSV example_put_double example_put_int example_ensemble example_params
        = Inr (all_paths_file, time_file) \<and>
      file_lines time_file = [''0'', ''0.5'', ''1''] \<and>
      split_on (CHR '','') (hd (file_lines all_paths_file)) = [''Path'', ''0'', ''0.5'', ''1''])"
proof -
  have h1: "1 \<le> steps example_params" by (simp add: example_params_def)
  have h2: "num_paths example_params \<le> int (length example_ensemble)"
    by (simp add: example_params_def example_ensemble_def)
  have h3: "int (length path) = steps example_params + 1" if "path \<in> set example_ensemble" for path
    using that by (auto simp: example_ensemble_def example_params_def)
  have h3': "list_all (\<lambda>path. int (length path) = steps example_params + 1) example_ensemble"
    using h3 by (simp only: list_all_iff) blast
  have h4: "CHR '','' \<notin> set (example_put_double x)" for x
    by (simp add: example_put_double_def)
  have h5: "CHR 0x0A \<notin> set (example_put_double x)" for x
    by (simp add: example_put_double_def)
  have times: "map (\<lambda>i. example_put_double
                      (real_of_int i * (T example_params / real_of_int (steps example_params))))
                 [0..steps example_params] = [''0'', ''0.5'', ''1'']"
    by (simp add: example_params_def example_put_double_def upto_rec1)
  obtain all_paths_file time_file where
    r: "saveResultsToCSV example_put_double example_put_int example_ensemble example_params
          = Inr (all_paths_file, time_file)"
    and l: "file_lines time_file = [''0'', ''0.5'', ''1'']"
    and c: "split_on (CHR '','') (hd (file_lines all_paths_file)) = ''Path'' # file_lines time_file"
    using saveResultsToCSV_time_points [where params = example_params
        and paths = example_ensemble and put_double = example_put_double
        and put_int = example_put_int, OF h1 h2 _ h4 h5] h3
    unfolding times by blast
  have c': "split_on (CHR '','') (hd (file_lines all_paths_file)) = [''Path'', ''0'', ''0.5'', ''1'']"
    unfolding c l by (rule refl)
  show ?thesis
    using h1 h2 h3' h4 h5 r l c' by blast
qed

text \<open>
  C10. For every number of paths \<open>n \<ge> 1\<close>, the two percentile indices that
  \<^verbatim>\<open>calculateStatistics\<close> computes, the truncations of \<open>0.05 * n\<close> and of
  \<open>0.95 * n\<close>, lie between \<open>0\<close> and \<open>n - 1\<close>, so neither access to the sorted
  vector of \<open>n\<close> terminal values is out of bounds.
\<close>

theorem percentile_indices_in_bounds:
  fixes sorted_prices :: "real list" and n :: int
  assumes "1 \<le> n" and "int (length sorted_prices) = n"
  shows "0 \<le> static_cast_int (0.05 * real_of_int n)
       \<and> static_cast_int (0.05 * real_of_int n) \<le> n - 1
       \<and> 0 \<le> static_cast_int (0.95 * real_of_int n)
       \<and> static_cast_int (0.95 * real_of_int n) \<le> n - 1
       \<and> vector_at sorted_prices (static_cast_int (0.05 * real_of_int n)) \<noteq> Inl OutOfBounds
       \<and> vector_at sorted_prices (static_cast_int (0.95 * real_of_int n)) \<noteq> Inl OutOfBounds"
proof -
  have a: "0 \<le> static_cast_int (0.05 * real_of_int n)"
    "static_cast_int (0.05 * real_of_int n) < n"
    using percentile_index_bounds [OF assms(1), of "0.05"] by simp_all
  have b: "0 \<le> static_cast_int (0.95 * real_of_int n)"
    "static_cast_int (0.95 * real_of_int n) < n"
    using percentile_index_bounds [OF assms(1), of "0.95"] by simp_all
  show ?thesis
    using a b assms(2) by (simp add: vector_at_def)
qed

theorem percentile_indices_in_bounds_witness:
  "(1::int) \<le> 3 \<and> int (length [1, 2, 3 :: real]) = 3
   \<and> static_cast_int (0.05 * real_of_int 3) = 0
   \<and> static_cast_int (0.95 * real_of_int 3) = 2
   \<and> vector_at [1, 2, 3 :: real] (static_cast_int (0.05 * real_of_int 3)) = Inr 1
   \<and> vector_at [1, 2, 3 :: real] (static_cast_int (0.95 * real_of_int 3)) = Inr 3"
proof -
  have h1: "(1::int) \<le> 3" by simp
  have h2: "int (length [1, 2, 3 :: real]) = 3" by simp
  have e5: "static_cast_int (0.05 * real_of_int 3) = 0"
    by (simp add: static_cast_int_def)
  have e95: "static_cast_int (0.95 * real_of_int 3) = 2"
    by (simp add: static_cast_int_def)
  show ?thesis
    using percentile_indices_in_bounds [OF h1 h2] h1 h2 e5 e95
    by (simp add: vector_at_def)
qed

end
